theory Spec2Isabelle
  imports Main
begin

section \<open>Python primitives used by the cron parser\<close>

text \<open>
  Strings are \<^typ>\<open>string\<close>; a \<^typ>\<open>char\<close> stands for the code point of the same
  number, so the model covers the expressions written in Latin-1 (code points 0 to 255).
  The character classes below are those of CPython on that range.  The interpreter's
  configurable cap on the number of digits \<^verbatim>\<open>int()\<close> accepts is left out;
  it only turns a conversion into a \<^verbatim>\<open>ValueError\<close>.
\<close>

datatype py_error =
    ValueError string
  | IndexError
  | KeyError
  | TypeError
  | AssertionError
  | NotImplementedError

text \<open>Sequencing of computations that may raise: the first exception wins.\<close>

definition bind_res :: "(py_error + 'a) \<Rightarrow> ('a \<Rightarrow> py_error + 'b) \<Rightarrow> py_error + 'b" where
  "bind_res r f = (case r of Inl e \<Rightarrow> Inl e | Inr x \<Rightarrow> f x)"

text \<open>\<^verbatim>\<open>try: ... except ValueError as exc: raise e' from exc\<close>: only a
  \<^verbatim>\<open>ValueError\<close> is caught, any other exception passes through.\<close>

definition catch_ValueError :: "(py_error + 'a) \<Rightarrow> py_error \<Rightarrow> py_error + 'a" where
  "catch_ValueError r e' = (case r of Inl (ValueError m) \<Rightarrow> Inl e' | other \<Rightarrow> other)"

subsection \<open>Character classes\<close>

text \<open>\<^verbatim>\<open>str.isspace\<close> on one character: the ASCII white space, the four
  separators FS, GS, RS, US, NEL and the no-break space.\<close>

definition isspace_chr :: "char \<Rightarrow> bool" where
  "isspace_chr c \<longleftrightarrow> c \<in> set [CHR 0x09, CHR 0x0A, CHR 0x0B, CHR 0x0C, CHR 0x0D,
     CHR 0x1C, CHR 0x1D, CHR 0x1E, CHR 0x1F, CHR 0x20, CHR 0x85, CHR 0xA0]"

text \<open>The decimal digits, which \<^verbatim>\<open>int()\<close> reads.\<close>

definition decimal_chr :: "char \<Rightarrow> bool" where
  "decimal_chr c \<longleftrightarrow> c \<in> set ''0123456789''"

text \<open>\<^verbatim>\<open>str.isdigit\<close> on one character: the decimal digits and the superscript
  digits two, three and one, which \<^verbatim>\<open>int()\<close> does not read.\<close>

definition isdigit_chr :: "char \<Rightarrow> bool" where
  "isdigit_chr c \<longleftrightarrow> decimal_chr c \<or> c \<in> set [CHR 0xB2, CHR 0xB3, CHR 0xB9]"

text \<open>\<^verbatim>\<open>s.isdigit()\<close>: at least one character, and all of them digits.\<close>

definition isdigit :: "string \<Rightarrow> bool" where
  "isdigit s \<longleftrightarrow> s \<noteq> [] \<and> list_all isdigit_chr s"

subsection \<open>Splitting and stripping\<close>

text \<open>\<^verbatim>\<open>s.split(sep)\<close> for a separator of one character: never an empty list,
  empty pieces are kept.\<close>

fun split_on :: "char \<Rightarrow> string \<Rightarrow> string list" where
  "split_on sep [] = [[]]"
| "split_on sep (c # cs) =
     (if c = sep then [] # split_on sep cs
      else (case split_on sep cs of
              [] \<Rightarrow> [[c]]
            | w # ws \<Rightarrow> (c # w) # ws))"

text \<open>\<^verbatim>\<open>s.split()\<close>: the maximal runs of characters that are not white space;
  \<open>cur\<close> is the run being read.\<close>

fun words_from :: "string \<Rightarrow> string \<Rightarrow> string list" where
  "words_from cur [] = (if cur = [] then [] else [cur])"
| "words_from cur (c # cs) =
     (if isspace_chr c
      then (if cur = [] then words_from [] cs else cur # words_from [] cs)
      else words_from (cur @ [c]) cs)"

definition py_split :: "string \<Rightarrow> string list" where
  "py_split s = words_from [] s"

definition py_strip :: "string \<Rightarrow> string" where
  "py_strip s = rev (dropWhile isspace_chr (rev (dropWhile isspace_chr s)))"

subsection \<open>Integers and text\<close>

definition digit_val :: "char \<Rightarrow> int" where
  "digit_val c = int (of_char c) - 48"

definition dec_val :: "string \<Rightarrow> int" where
  "dec_val s = foldl (\<lambda>a c. 10 * a + digit_val c) 0 s"

text \<open>The digits of an integer literal: decimal digits, with single underscores allowed
  between two digits. \<open>prev\<close> tells whether the previous character was a digit.\<close>

fun digit_body :: "bool \<Rightarrow> string \<Rightarrow> bool" where
  "digit_body prev [] = prev"
| "digit_body prev (c # cs) =
     (if decimal_chr c then digit_body True cs
      else if c = CHR ''_'' then prev \<and> digit_body False cs
      else False)"

text \<open>\<^verbatim>\<open>int(s)\<close>: \<open>None\<close> stands for the \<^verbatim>\<open>ValueError\<close> it raises.\<close>

definition py_int :: "string \<Rightarrow> int option" where
  "py_int s =
     (let t = py_strip s;
          neg = (t \<noteq> [] \<and> hd t = CHR ''-'');
          body = (if t \<noteq> [] \<and> (hd t = CHR ''-'' \<or> hd t = CHR ''+'') then tl t else t)
      in if digit_body False body
         then Some ((if neg then - 1 else 1) * dec_val (filter (\<lambda>c. c \<noteq> CHR ''_'') body))
         else None)"

fun nat_digits :: "nat \<Rightarrow> nat \<Rightarrow> string" where
  "nat_digits 0 n = []"
| "nat_digits (Suc fuel) n =
     (if n < 10 then [char_of (48 + n)]
      else nat_digits fuel (n div 10) @ [char_of (48 + n mod 10)])"

text \<open>\<^verbatim>\<open>str(n)\<close> for an integer; a number below \<open>10 ^ k\<close> has at most \<open>k\<close>
  digits, so \<open>n + 1\<close> rounds are always enough.\<close>

definition py_str :: "int \<Rightarrow> string" where
  "py_str n = (if n < 0 then CHR ''-'' # nat_digits (Suc (nat (- n))) (nat (- n))
               else nat_digits (Suc (nat n)) (nat n))"

text \<open>\<^verbatim>\<open>f"{n:02d}"\<close>: padded with zeros to two characters, the sign included.\<close>

definition fmt_02d :: "int \<Rightarrow> string" where
  "fmt_02d n = (if 0 \<le> n \<and> n < 10 then CHR ''0'' # py_str n else py_str n)"

subsection \<open>repr of a string\<close>

definition hex_digit :: "nat \<Rightarrow> char" where
  "hex_digit n = ''0123456789abcdef'' ! (n mod 16)"

definition printable_chr :: "char \<Rightarrow> bool" where
  "printable_chr c \<longleftrightarrow>
     (let n = (of_char c :: nat)
      in (32 \<le> n \<and> n < 127) \<or> (161 \<le> n \<and> n \<noteq> 173))"

definition repr_chr :: "char \<Rightarrow> char \<Rightarrow> string" where
  "repr_chr quote c =
     (if c = quote \<or> c = CHR 0x5C then [CHR 0x5C, c]
      else if c = CHR 0x09 then [CHR 0x5C, CHR ''t'']
      else if c = CHR 0x0A then [CHR 0x5C, CHR ''n'']
      else if c = CHR 0x0D then [CHR 0x5C, CHR ''r'']
      else if printable_chr c then [c]
      else [CHR 0x5C, CHR ''x'', hex_digit (of_char c div 16), hex_digit (of_char c)])"

text \<open>\<^verbatim>\<open>repr(s)\<close>: single quotes, unless the text has a single quote and no
  double quote.\<close>

definition py_repr :: "string \<Rightarrow> string" where
  "py_repr s =
     (let quote = (if CHR 0x27 \<in> set s \<and> CHR 0x22 \<notin> set s then CHR 0x22 else CHR 0x27)
      in quote # concat (map (repr_chr quote) s) @ [quote])"

definition int_error :: "string \<Rightarrow> py_error" where
  "int_error s = ValueError (''invalid literal for int() with base 10: '' @ py_repr s)"

subsection \<open>range\<close>

text \<open>The elements of \<^verbatim>\<open>range(start, stop, step)\<close> for a step other than zero.\<close>

definition range_list :: "int \<Rightarrow> int \<Rightarrow> int \<Rightarrow> int list" where
  "range_list start stop step =
     (if 0 < step
      then (if start < stop
            then map (\<lambda>k. start + int k * step) [0 ..< nat ((stop - start - 1) div step + 1)]
            else [])
      else (if stop < start
            then map (\<lambda>k. start + int k * step) [0 ..< nat ((start - stop - 1) div (- step) + 1)]
            else []))"

definition py_range :: "int \<Rightarrow> int \<Rightarrow> int \<Rightarrow> py_error + int list" where
  "py_range start stop step =
     (if step = 0 then Inl (ValueError ''range() arg 3 must not be zero'')
      else Inr (range_list start stop step))"

section \<open>common.py\<close>

datatype field_name = minutes | hours | day_of_month_key | month_key | day_of_week_key

fun FIELD_RANGES :: "field_name \<Rightarrow> int list" where
  "FIELD_RANGES minutes = [0..59]"
| "FIELD_RANGES hours = [0..23]"
| "FIELD_RANGES day_of_month_key = [1..31]"
| "FIELD_RANGES month_key = [1..12]"
| "FIELD_RANGES day_of_week_key = [0..6]"

definition DAY_NAME_TO_INDEX :: "string \<rightharpoonup> int" where
  "DAY_NAME_TO_INDEX = map_of
     [(''SUN'', 0), (''MON'', 1), (''TUE'', 2), (''WED'', 3), (''THU'', 4), (''FRI'', 5),
      (''SAT'', 6)]"

definition MONTH_NAME_TO_INDEX :: "string \<rightharpoonup> int" where
  "MONTH_NAME_TO_INDEX = map_of
     [(''JAN'', 1), (''FEB'', 2), (''MAR'', 3), (''APR'', 4), (''MAY'', 5), (''JUN'', 6),
      (''JUL'', 7), (''AUG'', 8), (''SEP'', 9), (''OCT'', 10), (''NOV'', 11), (''DEC'', 12)]"

definition DAY_INDEX_TO_NAME :: "int \<rightharpoonup> string" where
  "DAY_INDEX_TO_NAME = map_of
     [(0, ''Sunday''), (1, ''Monday''), (2, ''Tuesday''), (3, ''Wednesday''),
      (4, ''Thursday''), (5, ''Friday''), (6, ''Saturday'')]"

definition MONTH_INDEX_TO_NAME :: "int \<rightharpoonup> string" where
  "MONTH_INDEX_TO_NAME = map_of
     [(1, ''January''), (2, ''February''), (3, ''March''), (4, ''April''), (5, ''May''),
      (6, ''June''), (7, ''July''), (8, ''August''), (9, ''September''), (10, ''October''),
      (11, ''November''), (12, ''December'')]"

definition ORDINAL_SUFFIXES :: "int \<rightharpoonup> string" where
  "ORDINAL_SUFFIXES = map_of [(1, ''st''), (2, ''nd''), (3, ''rd'')]"

record CronSchedule =
  minute :: "int list"
  hour :: "int list"
  day_of_month :: "int list"
  month :: "int list"
  day_of_week :: "int list"

section \<open>parse.py\<close>

definition EXPECTED_FIELD_COUNT :: nat where
  "EXPECTED_FIELD_COUNT = 5"

definition invalid_cron_expression :: "string \<Rightarrow> py_error" where
  "invalid_cron_expression expr = ValueError (py_repr expr @ '' is not valid cron expression.'')"

text \<open>Unpacking the result of a split into exactly two names.\<close>

definition unpack2 :: "string list \<Rightarrow> py_error + (string \<times> string)" where
  "unpack2 xs =
     (case xs of
        [a, b] \<Rightarrow> Inr (a, b)
      | _ \<Rightarrow> Inl (ValueError (if length xs < 2 then ''not enough values to unpack (expected 2)''
                              else ''too many values to unpack (expected 2)'')))"

definition expr_to_parts :: "string \<Rightarrow> py_error + (string \<times> int)" where
  "expr_to_parts expr =
     (if CHR ''/'' \<in> set expr
      then bind_res (unpack2 (split_on CHR ''/'' expr)) (\<lambda>(value_expr, step_expr).
             if \<not> isdigit step_expr then Inl (invalid_cron_expression expr)
             else (case py_int step_expr of
                     None \<Rightarrow> Inl (int_error step_expr)
                   | Some step \<Rightarrow> Inr (value_expr, step)))
      else Inr (expr, 1))"

text \<open>\<^verbatim>\<open>if s in transform_map: s = str(transform_map[s])\<close>\<close>

definition resolve_alias :: "(string \<rightharpoonup> int) \<Rightarrow> string \<Rightarrow> string" where
  "resolve_alias transform_map s =
     (case transform_map s of None \<Rightarrow> s | Some v \<Rightarrow> py_str v)"

definition first_of :: "int list \<Rightarrow> py_error + int" where
  "first_of xs = (case xs of [] \<Rightarrow> Inl IndexError | x # _ \<Rightarrow> Inr x)"

definition last_of :: "int list \<Rightarrow> py_error + int" where
  "last_of xs = (if xs = [] then Inl IndexError else Inr (last xs))"

definition to_int :: "string \<Rightarrow> py_error + int" where
  "to_int s = (case py_int s of None \<Rightarrow> Inl (int_error s) | Some n \<Rightarrow> Inr n)"

text \<open>\<^verbatim>\<open>transform_map = transform_map or {}\<close>\<close>

definition alias_map :: "(string \<rightharpoonup> int) option \<Rightarrow> (string \<rightharpoonup> int)" where
  "alias_map transform_map_opt = (case transform_map_opt of None \<Rightarrow> Map.empty | Some m \<Rightarrow> m)"

definition parse_part :: "string \<Rightarrow> int list \<Rightarrow> (string \<rightharpoonup> int) option \<Rightarrow> py_error + int list" where
  "parse_part part allowed transform_map_opt =
     (let transform_map = alias_map transform_map_opt
      in bind_res (expr_to_parts part) (\<lambda>(value_expr0, step_expr).
         if step_expr \<ge> int (length allowed) then Inl (invalid_cron_expression part)
         else
           let value_expr = resolve_alias transform_map value_expr0
           in if isdigit value_expr then
                (if step_expr \<noteq> 1 then Inl (invalid_cron_expression part)
                 else bind_res (to_int value_expr) (\<lambda>v.
                   if v \<notin> set allowed then Inl (invalid_cron_expression part)
                   else Inr [v]))
              else if value_expr = ''*'' then
                bind_res (first_of allowed) (\<lambda>lo.
                bind_res (last_of allowed) (\<lambda>hi.
                  py_range lo (hi + 1) step_expr))
              else if CHR ''-'' \<in> set value_expr then
                bind_res (unpack2 (split_on CHR ''-'' value_expr)) (\<lambda>(start0, end0).
                  let start1 = resolve_alias transform_map start0;
                      end1 = resolve_alias transform_map end0
                  in bind_res (to_int start1) (\<lambda>start.
                     bind_res (to_int end1) (\<lambda>end.
                       if start \<notin> set allowed \<or> end \<notin> set allowed
                       then Inl (invalid_cron_expression part)
                       else py_range start (end + 1) step_expr)))
              else Inl (invalid_cron_expression part)))"

text \<open>The loop of \<^verbatim>\<open>_parse_expression\<close> over the comma-separated parts; \<open>result\<close>
  is the set built so far.\<close>

fun parse_parts :: "string list \<Rightarrow> int list \<Rightarrow> (string \<rightharpoonup> int) option \<Rightarrow> int set
    \<Rightarrow> py_error + int set" where
  "parse_parts [] allowed transform_map result = Inr result"
| "parse_parts (part # parts) allowed transform_map result =
     bind_res (parse_part part allowed transform_map) (\<lambda>values.
       parse_parts parts allowed transform_map (result \<union> set values))"

definition parse_expression :: "string \<Rightarrow> int list \<Rightarrow> (string \<rightharpoonup> int) option
    \<Rightarrow> py_error + int list" where
  "parse_expression expr allowed transform_map =
     bind_res
       (catch_ValueError (parse_parts (split_on CHR '','' expr) allowed transform_map {})
          (invalid_cron_expression expr))
       (\<lambda>result. Inr (sorted_list_of_set result))"

definition parse :: "string \<Rightarrow> py_error + CronSchedule" where
  "parse expression =
     (let expression_parts = py_split expression
      in if length expression_parts \<noteq> EXPECTED_FIELD_COUNT
         then Inl (invalid_cron_expression expression)
         else (case expression_parts of
             [minutes_f, hours_f, day_of_month_f, month_f, day_of_week_f] \<Rightarrow>
               catch_ValueError
                 (bind_res (parse_expression minutes_f (FIELD_RANGES minutes) None) (\<lambda>mi.
                  bind_res (parse_expression hours_f (FIELD_RANGES hours) None) (\<lambda>ho.
                  bind_res (parse_expression day_of_month_f (FIELD_RANGES day_of_month_key) None)
                    (\<lambda>dm.
                  bind_res (parse_expression month_f (FIELD_RANGES month_key)
                              (Some MONTH_NAME_TO_INDEX)) (\<lambda>mo.
                  bind_res (parse_expression day_of_week_f (FIELD_RANGES day_of_week_key)
                              (Some DAY_NAME_TO_INDEX)) (\<lambda>dw.
                    Inr \<lparr>minute = mi, hour = ho, day_of_month = dm, month = mo,
                         day_of_week = dw\<rparr>))))))
                 (invalid_cron_expression expression)
           | _ \<Rightarrow> Inl (invalid_cron_expression expression)))"

section \<open>explain.py\<close>

definition WEEKDAYS :: "int list" where
  "WEEKDAYS = [1..5]"

definition ORDINAL_EXCEPTION_RANGE :: "int list" where
  "ORDINAL_EXCEPTION_RANGE = [10..20]"

definition MAX_DISCRETE_TIMES :: nat where
  "MAX_DISCRETE_TIMES = 3"

subsection \<open>Helpers\<close>

text \<open>\<^verbatim>\<open>sep.join(items)\<close>\<close>

fun join :: "string \<Rightarrow> string list \<Rightarrow> string" where
  "join sep [] = []"
| "join sep [x] = x"
| "join sep (x # y # ys) = x @ sep @ join sep (y # ys)"

text \<open>\<^verbatim>\<open>d[k]\<close> on a dictionary.\<close>

definition lookup :: "('k \<rightharpoonup> 'v) \<Rightarrow> 'k \<Rightarrow> py_error + 'v" where
  "lookup d k = (case d k of None \<Rightarrow> Inl KeyError | Some v \<Rightarrow> Inr v)"

text \<open>A list comprehension whose element expression may raise.\<close>

fun map_res :: "('a \<Rightarrow> py_error + 'b) \<Rightarrow> 'a list \<Rightarrow> py_error + 'b list" where
  "map_res f [] = Inr []"
| "map_res f (x # xs) = bind_res (f x) (\<lambda>y. bind_res (map_res f xs) (\<lambda>ys. Inr (y # ys)))"

text \<open>\<^verbatim>\<open>s.replace(old, new, 1)\<close>\<close>

fun replace_first :: "string \<Rightarrow> string \<Rightarrow> string \<Rightarrow> string" where
  "replace_first old new [] = (if old = [] then new else [])"
| "replace_first old new (c # cs) =
     (if take (length old) (c # cs) = old then new @ drop (length old) (c # cs)
      else c # replace_first old new cs)"

definition startswith :: "string \<Rightarrow> string \<Rightarrow> bool" where
  "startswith s p \<longleftrightarrow> take (length p) s = p"

text \<open>\<^verbatim>\<open>itertools.pairwise\<close>\<close>

definition pairwise_list :: "'a list \<Rightarrow> ('a \<times> 'a) list" where
  "pairwise_list xs = zip xs (tl xs)"

definition format_time :: "int \<Rightarrow> int \<Rightarrow> string" where
  "format_time hours_v minutes_v = fmt_02d hours_v @ '':'' @ fmt_02d minutes_v"

definition as_ordinal :: "int \<Rightarrow> string" where
  "as_ordinal n =
     (if n \<in> set ORDINAL_EXCEPTION_RANGE then py_str n @ ''th''
      else (case ORDINAL_SUFFIXES (n mod 10) of
              Some suffix \<Rightarrow> py_str n @ suffix
            | None \<Rightarrow> py_str n @ ''th''))"

definition join_list :: "string list \<Rightarrow> string" where
  "join_list items =
     (if items = [] then []
      else if length items = 1 then hd items
      else join '', '' (butlast items) @ '' and '' @ last items)"

definition is_contiguous :: "int list \<Rightarrow> bool" where
  "is_contiguous values = list_all (\<lambda>(a, b). b - a = 1) (pairwise_list values)"

text \<open>The set of the differences has one element exactly when the list of the differences
  without its repetitions has length one.\<close>

definition uniform_step :: "int list \<Rightarrow> int option" where
  "uniform_step values =
     (if values = [] then None
      else if length values = 1 then Some 1
      else (case remdups (map (\<lambda>(a, b). b - a) (pairwise_list values)) of
              [d] \<Rightarrow> Some d
            | _ \<Rightarrow> None))"

text \<open>\<^verbatim>\<open>step and step > 1\<close>: a step that is neither \<^verbatim>\<open>None\<close> nor \<open>0\<close>, and is
  above \<open>1\<close>.\<close>

definition step_above_one :: "int option \<Rightarrow> bool" where
  "step_above_one step = (case step of None \<Rightarrow> False | Some k \<Rightarrow> k \<noteq> 0 \<and> 1 < k)"

definition is_full_range :: "int list \<Rightarrow> int list \<Rightarrow> bool" where
  "is_full_range values allowed \<longleftrightarrow> values = allowed"

definition is_full_stepped_cover :: "int list \<Rightarrow> int list \<Rightarrow> int \<Rightarrow> py_error + bool" where
  "is_full_stepped_cover values allowed step =
     (if values = [] \<or> hd values \<noteq> 0 then Inr False
      else bind_res (last_of allowed) (\<lambda>last_v.
           bind_res (py_range 0 (last_v + 1) step) (\<lambda>seq.
             Inr (values = seq))))"

subsection \<open>The time phrase\<close>

definition summarize_full_range_time :: "int list \<Rightarrow> int list \<Rightarrow> py_error + string" where
  "summarize_full_range_time minute_v unused =
     (let step = uniform_step minute_v
      in if step_above_one step then Inr (''Every '' @ py_str (the step) @ '' minutes'')
         else if is_contiguous minute_v then Inr ''Every minute''
         else if length minute_v = 1
           then bind_res (first_of minute_v) (\<lambda>m. Inr (''At '' @ fmt_02d m @ '' every hour''))
         else bind_res (last_of minute_v) (\<lambda>m_last.
                Inr (''At '' @ (join '', '' (map py_str (butlast minute_v)) @ '' and ''
                       @ py_str m_last @ '' minute'') @ '' every hour'')))"

definition summarize_simple_exact_times :: "int list \<Rightarrow> int list \<Rightarrow> py_error + string option"
  where
  "summarize_simple_exact_times minute_v hour_v =
     (if length minute_v \<noteq> 1 then Inl AssertionError
      else bind_res (first_of minute_v) (\<lambda>m.
        let single = (if length hour_v = 1
                      then bind_res (first_of hour_v) (\<lambda>h.
                             Inr (Some (''At '' @ format_time h m)))
                      else Inr None);
            short = (if length hour_v \<le> MAX_DISCRETE_TIMES
                     then Inr (Some (''At '' @ join_list (map (\<lambda>h. format_time h m) hour_v)))
                     else single)
        in if m = 0 \<and> 1 < length hour_v then
             (case uniform_step hour_v of
                None \<Rightarrow> short
              | Some step \<Rightarrow>
                  if step = 0 then short
                  else bind_res (first_of hour_v) (\<lambda>h0.
                    if h0 \<noteq> 0 then short
                    else bind_res (is_full_stepped_cover hour_v (FIELD_RANGES hours) step)
                      (\<lambda>cover.
                        if cover then Inr (Some (''Every '' @ py_str step @ '' hours''))
                        else short)))
           else single))"

definition summarize_contiguous_times :: "int list \<Rightarrow> int list \<Rightarrow> py_error + string" where
  "summarize_contiguous_times minute_v hour_v =
     bind_res (first_of hour_v) (\<lambda>h0.
     bind_res (first_of minute_v) (\<lambda>m0.
     bind_res (last_of hour_v) (\<lambda>h1.
     bind_res (last_of minute_v) (\<lambda>m1.
       let step = uniform_step minute_v
       in if step_above_one step \<and> 1 \<le> length hour_v
          then Inr (''Every '' @ py_str (the step) @ '' minutes from '' @ format_time h0 0
                      @ '' to '' @ format_time h1 59)
          else Inr (''Every minute between '' @ format_time h0 m0 @ '' and ''
                      @ format_time h1 m1)))))"

definition summarize_uniform_step :: "int list \<Rightarrow> int list \<Rightarrow> int \<Rightarrow> py_error + string option"
  where
  "summarize_uniform_step minute_v hour_v step =
     (if length hour_v = 0 then Inl AssertionError
      else if is_contiguous hour_v \<and> 1 \<le> length hour_v
        then bind_res (first_of hour_v) (\<lambda>h0.
             bind_res (last_of hour_v) (\<lambda>h1.
               Inr (Some (''Every '' @ py_str step @ '' minutes from '' @ format_time h0 0
                            @ '' to '' @ format_time h1 59))))
      else if length hour_v \<le> MAX_DISCRETE_TIMES
        then Inr (Some (''Every '' @ py_str step @ '' minutes in ''
               @ join_list (map (\<lambda>h. format_time h 0 @ ''-'' @ format_time h 59) hour_v)))
      else Inr None)"

definition summarize_time_stepped :: "int list \<Rightarrow> int list \<Rightarrow> py_error + string" where
  "summarize_time_stepped minute_v hour_v =
     (let step = uniform_step minute_v
      in if step_above_one step \<and> hour_v \<noteq> []
         then bind_res (summarize_uniform_step minute_v hour_v (the step)) (\<lambda>summarized.
                case summarized of Some text_v \<Rightarrow> Inr text_v | None \<Rightarrow> Inr [])
         else Inr [])"

definition summarize_time_ranges :: "int list \<Rightarrow> int list \<Rightarrow> py_error + string" where
  "summarize_time_ranges minute_v hour_v =
     (if is_contiguous minute_v \<and> is_contiguous hour_v \<and> 1 < length minute_v
         \<and> 1 \<le> length hour_v
      then summarize_contiguous_times minute_v hour_v
      else summarize_time_stepped minute_v hour_v)"

definition summarize_time :: "int list \<Rightarrow> int list \<Rightarrow> py_error + string" where
  "summarize_time minute_v hour_v =
     (if is_full_range hour_v (FIELD_RANGES hours) \<and> minute_v \<noteq> []
      then summarize_full_range_time minute_v hour_v
      else if length minute_v = 1
        then bind_res (summarize_simple_exact_times minute_v hour_v) (\<lambda>summarized.
               case summarized of
                 Some text_v \<Rightarrow> Inr text_v
               | None \<Rightarrow> summarize_time_ranges minute_v hour_v)
      else summarize_time_ranges minute_v hour_v)"

subsection \<open>The calendar phrase\<close>

definition summarize_non_full_dow :: "string list \<Rightarrow> int list \<Rightarrow> py_error + string list" where
  "summarize_non_full_dow bits dow =
     (if dow = WEEKDAYS then Inr (bits @ [''on weekdays''])
      else if dow = [0, 6] then Inr (bits @ [''on weekends''])
      else if length dow = 1
        then bind_res (lookup DAY_INDEX_TO_NAME (hd dow)) (\<lambda>name.
               Inr (bits @ [''on '' @ name]))
      else if is_contiguous dow
        then bind_res (first_of dow) (\<lambda>d0.
             bind_res (lookup DAY_INDEX_TO_NAME d0) (\<lambda>n0.
             bind_res (last_of dow) (\<lambda>d1.
             bind_res (lookup DAY_INDEX_TO_NAME d1) (\<lambda>n1.
               Inr (bits @ [''on '' @ n0 @ '' to '' @ n1])))))
      else bind_res (map_res (lookup DAY_INDEX_TO_NAME) dow) (\<lambda>names.
             Inr (bits @ [''on '' @ join_list names])))"

definition summarize_non_full_dom :: "string list \<Rightarrow> int list \<Rightarrow> int list
    \<Rightarrow> py_error + string list" where
  "summarize_non_full_dom bits dom_v month_v =
     (let ords = map as_ordinal dom_v
      in if length dom_v = 1 \<and> is_full_range month_v (FIELD_RANGES month_key)
           then Inr (bits @ [''on the '' @ as_ordinal (hd dom_v) @ '' of each month''])
         else if length dom_v = 1
           then Inr (bits @ [''on the '' @ as_ordinal (hd dom_v)])
         else if is_contiguous dom_v
           then bind_res (first_of dom_v) (\<lambda>d0.
                bind_res (last_of dom_v) (\<lambda>d1.
                  Inr (bits @ [''from the '' @ as_ordinal d0 @ '' to the '' @ as_ordinal d1])))
         else if is_full_range month_v (FIELD_RANGES month_key)
           then Inr (bits @ [''on the '' @ join_list ords @ '' of each month''])
         else Inr (bits @ [''on the '' @ join_list ords]))"

definition summarize_non_full_month :: "string list \<Rightarrow> int list \<Rightarrow> py_error + string list" where
  "summarize_non_full_month bits month_v =
     (if is_contiguous month_v
      then bind_res (first_of month_v) (\<lambda>m0.
           bind_res (lookup MONTH_INDEX_TO_NAME m0) (\<lambda>n0.
           bind_res (last_of month_v) (\<lambda>m1.
           bind_res (lookup MONTH_INDEX_TO_NAME m1) (\<lambda>n1.
             Inr (bits @ [''during '' @ n0 @ '' to '' @ n1])))))
      else bind_res (map_res (lookup MONTH_INDEX_TO_NAME) month_v) (\<lambda>names.
             Inr (bits @ [''in '' @ join_list names])))"

definition summarize_calendar :: "int list \<Rightarrow> int list \<Rightarrow> int list \<Rightarrow> py_error + string list"
  where
  "summarize_calendar dom_v month_v dow =
     bind_res (if \<not> is_full_range dow (FIELD_RANGES day_of_week_key)
               then summarize_non_full_dow [] dow else Inr []) (\<lambda>bits1.
     bind_res (if \<not> is_full_range dom_v (FIELD_RANGES day_of_month_key)
               then summarize_non_full_dom bits1 dom_v month_v else Inr bits1) (\<lambda>bits2.
     (if \<not> is_full_range month_v (FIELD_RANGES month_key)
      then summarize_non_full_month bits2 month_v else Inr bits2)))"

subsection \<open>explain\<close>

text \<open>The argument of \<^verbatim>\<open>explain\<close>: a string, a schedule, or a value of another
  type.\<close>

datatype explain_arg = Text string | Parsed CronSchedule | Other

definition ensure_cron_schedule :: "explain_arg \<Rightarrow> py_error + CronSchedule" where
  "ensure_cron_schedule spec =
     (case spec of Text s \<Rightarrow> parse s | Parsed c \<Rightarrow> Inr c | Other \<Rightarrow> Inl TypeError)"

definition explain :: "explain_arg \<Rightarrow> py_error + string" where
  "explain spec =
     bind_res (ensure_cron_schedule spec) (\<lambda>schedule.
     bind_res (summarize_time (minute schedule) (hour schedule)) (\<lambda>time_phrase.
     bind_res (summarize_calendar (day_of_month schedule) (month schedule)
                 (day_of_week schedule)) (\<lambda>calendar_bits.
       let sentence =
         (if startswith time_phrase ''At '' \<and> calendar_bits = []
          then ''Every day '' @ replace_first ''At '' ''at '' time_phrase
          else
            let parts1 = (if time_phrase \<noteq> [] then [time_phrase] else []);
                parts2 = (if calendar_bits \<noteq> [] then parts1 @ [join '' '' calendar_bits]
                          else parts1)
            in py_strip (join '' '' parts2))
       in if sentence = [] then Inl NotImplementedError
          else Inr (sentence @ ''.''))))"

section \<open>Notions used in the statements\<close>

text \<open>The range and the alias table that \<^verbatim>\<open>parse\<close> passes to \<^verbatim>\<open>_parse_expression\<close>
  for the field at position \<open>i\<close> of the expression, and the field of the schedule that
  receives the result.\<close>

definition field_range :: "nat \<Rightarrow> int list" where
  "field_range i = [FIELD_RANGES minutes, FIELD_RANGES hours, FIELD_RANGES day_of_month_key,
                    FIELD_RANGES month_key, FIELD_RANGES day_of_week_key] ! i"

definition field_aliases :: "nat \<Rightarrow> (string \<rightharpoonup> int) option" where
  "field_aliases i = [None, None, None, Some MONTH_NAME_TO_INDEX, Some DAY_NAME_TO_INDEX] ! i"

definition schedule_field :: "CronSchedule \<Rightarrow> nat \<Rightarrow> int list" where
  "schedule_field s i = [minute s, hour s, day_of_month s, month s, day_of_week s] ! i"

text \<open>A part is a reversed range when its base, the text before an optional step, is
  \<^verbatim>\<open>start-end\<close> with both ends read as integers (after the alias table) and the start
  above the end.\<close>

definition reversed_range :: "(string \<rightharpoonup> int) \<Rightarrow> string \<Rightarrow> bool" where
  "reversed_range m part =
     (case expr_to_parts part of
        Inl err \<Rightarrow> False
      | Inr (v, st) \<Rightarrow>
          (case split_on CHR ''-'' v of
             [a, b] \<Rightarrow>
               (case (py_int (resolve_alias m a), py_int (resolve_alias m b)) of
                  (Some x, Some y) \<Rightarrow> y < x
                | _ \<Rightarrow> False)
           | _ \<Rightarrow> False))"

text \<open>Every comma-separated part of the field at position \<open>i\<close> is a reversed range.\<close>

definition field_all_reversed :: "string \<Rightarrow> nat \<Rightarrow> bool" where
  "field_all_reversed e i =
     list_all (reversed_range (alias_map (field_aliases i)))
       (split_on CHR '','' (py_split e ! i))"

text \<open>Upper case of the letters a to z; every other character is left as it is.\<close>

definition ascii_upper :: "char \<Rightarrow> char" where
  "ascii_upper c =
     (case map_of (zip ''abcdefghijklmnopqrstuvwxyz'' ''ABCDEFGHIJKLMNOPQRSTUVWXYZ'') c of
        Some u \<Rightarrow> u
      | None \<Rightarrow> c)"

definition alpha_chr :: "char \<Rightarrow> bool" where
  "alpha_chr c \<longleftrightarrow> c \<in> set ''abcdefghijklmnopqrstuvwxyzABCDEFGHIJKLMNOPQRSTUVWXYZ''"

text \<open>A name is a miscased alias when it is not a key of the table but its upper case is:
  a lower-case or mixed-case spelling of an alias.\<close>

definition miscased :: "(string \<rightharpoonup> int) \<Rightarrow> string \<Rightarrow> bool" where
  "miscased m x \<longleftrightarrow> m x = None \<and> m (map ascii_upper x) \<noteq> None"

text \<open>A part uses a miscased alias when its base, the text before the first \<^verbatim>\<open>/\<close>, is
  one, or is made of pieces joined by \<^verbatim>\<open>-\<close> one of which is one.\<close>

definition uses_miscased_alias :: "(string \<rightharpoonup> int) \<Rightarrow> string \<Rightarrow> bool" where
  "uses_miscased_alias m p \<longleftrightarrow>
     list_ex (miscased m) (split_on CHR ''-'' (takeWhile (\<lambda>c. c \<noteq> CHR ''/'') p))"

section \<open>Auxiliary lemmas\<close>

subsection \<open>Splitting and integer conversion\<close>

lemma split_on_nonempty: "split_on sep s \<noteq> []"
  by (induction s) (auto split: list.splits)

lemma split_on_no_sep: "sep \<notin> set s \<Longrightarrow> split_on sep s = [s]"
  by (induction s) auto

lemma split_on_append_sep: "sep \<notin> set a \<Longrightarrow> split_on sep (a @ sep # b) = a # split_on sep b"
  by (induction a) auto

lemma length_split_on: "length (split_on sep s) = Suc (length (filter (\<lambda>c. c = sep) s))"
  by (induction s) (auto split: list.splits simp: split_on_nonempty)

lemma split_on_piece_chars: "x \<in> set (split_on sep s) \<Longrightarrow> set x \<subseteq> set s \<and> sep \<notin> set x"
proof (induction s arbitrary: x)
  case Nil
  then show ?case by simp
next
  case (Cons c cs)
  show ?case
  proof (cases "c = sep")
    case True
    with Cons show ?thesis by auto
  next
    case False
    obtain w ws where sp: "split_on sep cs = w # ws"
      using split_on_nonempty [of sep cs] by (cases "split_on sep cs") auto
    from Cons.prems False sp have "x = c # w \<or> x \<in> set ws" by auto
    then show ?thesis
    proof
      assume "x = c # w"
      moreover have "set w \<subseteq> set cs \<and> sep \<notin> set w" using Cons.IH [of w] sp by simp
      ultimately show ?thesis using False by auto
    next
      assume "x \<in> set ws"
      then have "set x \<subseteq> set cs \<and> sep \<notin> set x" using Cons.IH [of x] sp by simp
      then show ?thesis by auto
    qed
  qed
qed

lemma split_on_pair:
  assumes "split_on sep (a @ sep # b) = [v, w]"
  shows "v = a \<and> w = b \<and> sep \<notin> set a \<and> sep \<notin> set b"
proof -
  have "length (split_on sep (a @ sep # b)) = 2" using assms by simp
  then have "length (filter (\<lambda>c. c = sep) a) + length (filter (\<lambda>c. c = sep) b) = 0"
    by (simp add: length_split_on)
  then have na: "sep \<notin> set a" and nb: "sep \<notin> set b"
    by (auto simp: filter_empty_conv)
  from na nb have "split_on sep (a @ sep # b) = [a, b]"
    by (simp add: split_on_append_sep split_on_no_sep)
  with assms na nb show ?thesis by simp
qed

lemma split_on_hd: "hd (split_on sep s) = takeWhile (\<lambda>c. c \<noteq> sep) s"
  by (induction s) (auto split: list.splits simp: split_on_nonempty)

lemma unpack2_cases:
  "(\<exists>a b. xs = [a, b] \<and> unpack2 xs = Inr (a, b)) \<or> (\<exists>m. unpack2 xs = Inl (ValueError m))"
  by (auto simp: unpack2_def split: list.splits)

lemma unpack2_Inr: "unpack2 xs = Inr (a, b) \<Longrightarrow> xs = [a, b]"
  by (auto simp: unpack2_def split: list.splits)


lemma digit_body_chars: "digit_body prev s \<Longrightarrow> c \<in> set s \<Longrightarrow> decimal_chr c \<or> c = CHR ''_''"
  by (induction prev s rule: digit_body.induct) (auto split: if_splits)

lemma set_py_strip: "set (py_strip s) \<subseteq> set s"
proof -
  have "set (py_strip s) \<subseteq> set (dropWhile isspace_chr s)"
    unfolding py_strip_def using set_dropWhileD by fastforce
  also have "\<dots> \<subseteq> set s" using set_dropWhileD by fastforce
  finally show ?thesis .
qed

lemma set_subset_py_strip: "c \<in> set s \<Longrightarrow> isspace_chr c \<or> c \<in> set (py_strip s)"
proof -
  assume c: "c \<in> set s"
  let ?d = "dropWhile isspace_chr s"
  have "s = takeWhile isspace_chr s @ ?d" by simp
  then have "c \<in> set (takeWhile isspace_chr s) \<or> c \<in> set ?d"
    using c by (metis Un_iff set_append)
  moreover have "c \<in> set (takeWhile isspace_chr s) \<Longrightarrow> isspace_chr c"
    by (rule set_takeWhileD [THEN conjunct2])
  moreover have "c \<in> set ?d \<Longrightarrow> isspace_chr c \<or> c \<in> set (py_strip s)"
  proof -
    assume "c \<in> set ?d"
    then have "c \<in> set (rev ?d)" by simp
    moreover have "rev ?d = takeWhile isspace_chr (rev ?d) @ dropWhile isspace_chr (rev ?d)"
      by simp
    ultimately have "c \<in> set (takeWhile isspace_chr (rev ?d))
        \<or> c \<in> set (dropWhile isspace_chr (rev ?d))"
      by (metis Un_iff set_append)
    then show ?thesis
      by (auto simp: py_strip_def dest: set_takeWhileD)
  qed
  ultimately show ?thesis by blast
qed

lemma py_int_chars:
  assumes "py_int s = Some n" "c \<in> set s"
  shows "decimal_chr c \<or> c = CHR ''_'' \<or> c = CHR ''+'' \<or> c = CHR ''-'' \<or> isspace_chr c"
proof -
  let ?t = "py_strip s"
  let ?body = "if ?t \<noteq> [] \<and> (hd ?t = CHR ''-'' \<or> hd ?t = CHR ''+'') then tl ?t else ?t"
  from assms(1) have db: "digit_body False ?body"
    by (auto simp: py_int_def Let_def split: if_splits)
  from assms(2) have "isspace_chr c \<or> c \<in> set ?t" by (rule set_subset_py_strip)
  then show ?thesis
  proof
    assume "isspace_chr c" then show ?thesis by simp
  next
    assume ct: "c \<in> set ?t"
    then have "?t \<noteq> []" by auto
    then have "?t = hd ?t # tl ?t" by simp
    with ct have "c = hd ?t \<or> c \<in> set (tl ?t)" by (metis set_ConsD)
    then have "c = CHR ''-'' \<or> c = CHR ''+'' \<or> c \<in> set ?body"
      using ct by (auto split: if_splits)
    then show ?thesis using digit_body_chars [OF db, of c] by blast
  qed
qed

lemma py_strip_id: "\<forall>c\<in>set s. \<not> isspace_chr c \<Longrightarrow> py_strip s = s"
proof -
  assume a: "\<forall>c\<in>set s. \<not> isspace_chr c"
  have d: "dropWhile isspace_chr xs = xs" if "\<forall>c\<in>set xs. \<not> isspace_chr c" for xs
    using that by (cases xs) auto
  have "dropWhile isspace_chr s = s" using a by (rule d)
  moreover have "dropWhile isspace_chr (rev s) = rev s" using a by (intro d) simp
  ultimately show ?thesis by (simp add: py_strip_def)
qed

lemma digit_val_nonneg: "decimal_chr c \<Longrightarrow> 0 \<le> digit_val c"
  by (auto simp: decimal_chr_def digit_val_def)

lemma foldl_dec_nonneg:
  "0 \<le> a \<Longrightarrow> \<forall>c\<in>set s. decimal_chr c \<Longrightarrow> 0 \<le> foldl (\<lambda>a c. 10 * a + digit_val c) a s"
proof (induction s arbitrary: a)
  case Nil
  then show ?case by simp
next
  case (Cons c cs)
  have "0 \<le> 10 * a + digit_val c" using Cons.prems digit_val_nonneg [of c] by simp
  then show ?case using Cons by simp
qed

lemma dec_val_nonneg: "\<forall>c\<in>set s. decimal_chr c \<Longrightarrow> 0 \<le> dec_val s"
  unfolding dec_val_def by (rule foldl_dec_nonneg) simp_all

lemma isdigit_chr_plain:
  "isdigit_chr c \<Longrightarrow> \<not> isspace_chr c \<and> c \<noteq> CHR ''-'' \<and> c \<noteq> CHR ''+'' \<and> c \<noteq> CHR ''/''
     \<and> c \<noteq> CHR ''*'' \<and> c \<noteq> CHR ''_'' \<and> c \<noteq> CHR '',''"
  by (auto simp: isdigit_chr_def decimal_chr_def isspace_chr_def)

lemma isdigit_chars: "isdigit s \<Longrightarrow> c \<in> set s \<Longrightarrow> isdigit_chr c"
  by (simp add: isdigit_def list_all_iff)

lemma isdigit_py_int_nonneg:
  assumes "isdigit s" "py_int s = Some n"
  shows "0 \<le> n"
proof -
  have ne: "s \<noteq> []" using assms(1) by (simp add: isdigit_def)
  have plain: "\<forall>c\<in>set s. \<not> isspace_chr c"
    using assms(1) isdigit_chars isdigit_chr_plain by blast
  then have t: "py_strip s = s" by (rule py_strip_id)
  have "hd s \<in> set s" using ne by simp
  then have h: "hd s \<noteq> CHR ''-'' \<and> hd s \<noteq> CHR ''+''"
    using assms(1) isdigit_chars isdigit_chr_plain by blast
  from assms(2) t h ne have db: "digit_body False s"
    and n: "n = dec_val (filter (\<lambda>c. c \<noteq> CHR ''_'') s)"
    by (auto simp: py_int_def Let_def split: if_splits)
  have "\<forall>c\<in>set (filter (\<lambda>c. c \<noteq> CHR ''_'') s). decimal_chr c"
    using digit_body_chars [OF db] by auto
  then show ?thesis unfolding n by (rule dec_val_nonneg)
qed

lemma isdigit_no_chr:
  "isdigit s \<Longrightarrow> CHR ''/'' \<notin> set s \<and> CHR ''-'' \<notin> set s \<and> s \<noteq> ''*''"
  using isdigit_chars isdigit_chr_plain by (metis list.set_intros(1))

subsection \<open>One part of a field\<close>

lemma expr_to_parts_Inr:
  assumes "expr_to_parts p = Inr (v, st)"
  shows "0 \<le> st \<and> ((CHR ''/'' \<notin> set p \<and> v = p \<and> st = 1)
           \<or> (\<exists>s. split_on CHR ''/'' p = [v, s] \<and> isdigit s \<and> py_int s = Some st))"
proof (cases "CHR ''/'' \<in> set p")
  case False
  with assms show ?thesis by (simp add: expr_to_parts_def)
next
  case True
  with assms obtain a s where u: "unpack2 (split_on CHR ''/'' p) = Inr (a, s)"
    and r: "(if \<not> isdigit s then Inl (invalid_cron_expression p)
             else (case py_int s of None \<Rightarrow> Inl (int_error s)
                   | Some step \<Rightarrow> Inr (a, step))) = Inr (v, st)"
    by (auto simp: expr_to_parts_def bind_res_def split: sum.splits)
  from r have d: "isdigit s" and i: "py_int s = Some st" and av: "a = v"
    by (auto split: if_splits option.splits)
  from u have "split_on CHR ''/'' p = [a, s]" by (rule unpack2_Inr)
  with d i av isdigit_py_int_nonneg [OF d i] show ?thesis by auto
qed

lemma expr_to_parts_error: "expr_to_parts p = Inl e \<Longrightarrow> \<exists>m. e = ValueError m"
  using unpack2_cases [of "split_on CHR ''/'' p"]
  by (auto simp: expr_to_parts_def bind_res_def invalid_cron_expression_def int_error_def
      split: if_splits sum.splits option.splits)

lemma to_int_cases:
  "(\<exists>n. py_int s = Some n \<and> to_int s = Inr n) \<or> (\<exists>m. py_int s = None \<and> to_int s = Inl (ValueError m))"
  by (cases "py_int s") (auto simp: to_int_def int_error_def)

lemma py_range_cases:
  "(step \<noteq> 0 \<and> py_range a b step = Inr (range_list a b step))
   \<or> (step = 0 \<and> (\<exists>m. py_range a b step = Inl (ValueError m)))"
  by (auto simp: py_range_def)

lemma parse_part_unfold:
  "parse_part part allowed tmo =
     (case expr_to_parts part of
        Inl e \<Rightarrow> Inl e
      | Inr (v0, st) \<Rightarrow>
          if int (length allowed) \<le> st then Inl (invalid_cron_expression part)
          else
            let v = resolve_alias (alias_map tmo) v0
            in if isdigit v then
                 (if st \<noteq> 1 then Inl (invalid_cron_expression part)
                  else (case py_int v of
                          None \<Rightarrow> Inl (int_error v)
                        | Some n \<Rightarrow> if n \<notin> set allowed then Inl (invalid_cron_expression part)
                                    else Inr [n]))
               else if v = ''*'' then
                 (if allowed = [] then Inl IndexError
                  else py_range (hd allowed) (last allowed + 1) st)
               else if CHR ''-'' \<in> set v then
                 (case unpack2 (split_on CHR ''-'' v) of
                    Inl e \<Rightarrow> Inl e
                  | Inr (a, b) \<Rightarrow>
                      (case py_int (resolve_alias (alias_map tmo) a) of
                         None \<Rightarrow> Inl (int_error (resolve_alias (alias_map tmo) a))
                       | Some x \<Rightarrow>
                           (case py_int (resolve_alias (alias_map tmo) b) of
                              None \<Rightarrow> Inl (int_error (resolve_alias (alias_map tmo) b))
                            | Some y \<Rightarrow>
                                if x \<notin> set allowed \<or> y \<notin> set allowed
                                then Inl (invalid_cron_expression part)
                                else py_range x (y + 1) st)))
               else Inl (invalid_cron_expression part))"
  by (auto simp: parse_part_def bind_res_def Let_def to_int_def first_of_def last_of_def
      split: sum.splits option.splits list.splits prod.splits)

lemma parse_part_error:
  assumes "parse_part p al tmo = Inl e"
  shows "\<exists>m. e = ValueError m"
proof (cases "expr_to_parts p")
  case (Inl e')
  with assms have "e = e'" by (simp add: parse_part_unfold)
  with Inl show ?thesis using expr_to_parts_error by blast
next
  case (Inr vs)
  obtain v0 st where vs: "vs = (v0, st)" by (cases vs)
  have st0: "0 \<le> st" using expr_to_parts_Inr Inr vs by blast
  show ?thesis
  proof (cases "int (length al) \<le> st")
    case True
    with assms Inr vs show ?thesis
      by (auto simp: parse_part_unfold invalid_cron_expression_def)
  next
    case False
    with st0 have ne: "al \<noteq> []" by auto
    from assms Inr vs False ne show ?thesis
      using unpack2_cases [of "split_on CHR ''-'' (resolve_alias (alias_map tmo) v0)"]
      by (auto simp: parse_part_unfold Let_def invalid_cron_expression_def int_error_def
          py_range_def split: if_splits option.splits sum.splits prod.splits)
  qed
qed

lemma parse_part_Inr_cases:
  assumes "parse_part p al tmo = Inr vs"
  shows "\<exists>v0 st. expr_to_parts p = Inr (v0, st) \<and> 0 < st \<and> st < int (length al) \<and>
     (let m = alias_map tmo; v = resolve_alias m v0 in
       (isdigit v \<and> st = 1 \<and> (\<exists>n. py_int v = Some n \<and> n \<in> set al \<and> vs = [n]))
     \<or> (\<not> isdigit v \<and> v = ''*'' \<and> vs = range_list (hd al) (last al + 1) st)
     \<or> (\<not> isdigit v \<and> v \<noteq> ''*'' \<and> (\<exists>a b x y. split_on CHR ''-'' v = [a, b]
           \<and> py_int (resolve_alias m a) = Some x \<and> py_int (resolve_alias m b) = Some y
           \<and> x \<in> set al \<and> y \<in> set al \<and> vs = range_list x (y + 1) st)))"
proof (cases "expr_to_parts p")
  case (Inl e')
  with assms show ?thesis by (simp add: parse_part_unfold)
next
  case (Inr pr)
  obtain v0 st where pr: "pr = (v0, st)" by (cases pr)
  have st0: "0 \<le> st" using expr_to_parts_Inr Inr pr by blast
  have lt: "st < int (length al)" using assms Inr pr
    by (auto simp: parse_part_unfold split: if_splits)
  have nz: "st \<noteq> 0" using assms Inr pr lt
    by (auto simp: parse_part_unfold Let_def py_range_def
        split: if_splits option.splits sum.splits prod.splits)
  from assms Inr pr lt nz st0 show ?thesis
    by (auto simp: parse_part_unfold Let_def py_range_def dest!: unpack2_Inr
        split: if_splits option.splits sum.splits prod.splits)
qed

lemma step_of_part:
  assumes "expr_to_parts (base @ ''/'' @ s) = Inr (v0, st)"
  shows "v0 = base \<and> isdigit s \<and> py_int s = Some st \<and> CHR ''/'' \<notin> set base"
proof -
  have "CHR ''/'' \<in> set (base @ ''/'' @ s)" by simp
  with expr_to_parts_Inr [OF assms] obtain s' where
    sp: "split_on CHR ''/'' (base @ CHR ''/'' # s) = [v0, s']"
    and d: "isdigit s'" and i: "py_int s' = Some st"
    by auto
  from split_on_pair [OF sp] d i show ?thesis by simp
qed

lemma expr_to_parts_base:
  assumes "expr_to_parts p = Inr (v0, st)"
  shows "v0 = takeWhile (\<lambda>c. c \<noteq> CHR ''/'') p"
proof -
  from expr_to_parts_Inr [OF assms] show ?thesis
  proof (elim conjE disjE exE)
    assume n: "CHR ''/'' \<notin> set p" and v: "v0 = p"
    have tw: "takeWhile (\<lambda>c. c \<noteq> CHR ''/'') p = p"
      using n by (intro takeWhile_eq_all_conv [THEN iffD2]) auto
    show ?thesis unfolding v by (rule tw [symmetric])
  next
    fix s
    assume "split_on CHR ''/'' p = [v0, s]"
    then have "hd (split_on CHR ''/'' p) = v0" by simp
    then show ?thesis by (simp add: split_on_hd)
  qed
qed

subsection \<open>Fields and whole expressions\<close>

lemma parse_parts_error:
  "parse_parts ps al tmo r = Inl e \<Longrightarrow> \<exists>m. e = ValueError m"
proof (induction ps arbitrary: r)
  case Nil
  then show ?case by simp
next
  case (Cons p ps)
  show ?case
  proof (cases "parse_part p al tmo")
    case (Inl e')
    with Cons.prems have "e = e'" by (simp add: bind_res_def)
    with Inl show ?thesis using parse_part_error by blast
  next
    case (Inr vs)
    with Cons.prems have "parse_parts ps al tmo (r \<union> set vs) = Inl e"
      by (simp add: bind_res_def)
    then show ?thesis by (rule Cons.IH)
  qed
qed

lemma parse_parts_Inr:
  "parse_parts ps al tmo r = Inr R \<Longrightarrow>
     (\<forall>p\<in>set ps. \<exists>vs. parse_part p al tmo = Inr vs)
     \<and> R = r \<union> {x. \<exists>p\<in>set ps. \<exists>vs. parse_part p al tmo = Inr vs \<and> x \<in> set vs}
     \<and> (finite r \<longrightarrow> finite R)"
proof (induction ps arbitrary: r)
  case Nil
  then show ?case by simp
next
  case (Cons p ps)
  from Cons.prems obtain vs where vs: "parse_part p al tmo = Inr vs"
    and rest: "parse_parts ps al tmo (r \<union> set vs) = Inr R"
    by (auto simp: bind_res_def split: sum.splits)
  from Cons.IH [OF rest] vs show ?case by auto
qed

lemma parse_expression_cases:
  "parse_expression w al tmo = Inl (invalid_cron_expression w)
   \<or> (\<exists>R. parse_parts (split_on CHR '','' w) al tmo {} = Inr R
          \<and> parse_expression w al tmo = Inr (sorted_list_of_set R))"
proof (cases "parse_parts (split_on CHR '','' w) al tmo {}")
  case (Inl e)
  then obtain m where "e = ValueError m" using parse_parts_error by blast
  with Inl show ?thesis
    by (simp add: parse_expression_def catch_ValueError_def bind_res_def)
next
  case (Inr R)
  then show ?thesis
    by (simp add: parse_expression_def catch_ValueError_def bind_res_def)
qed

lemma parse_expression_Inl:
  "parse_expression w al tmo = Inl e \<Longrightarrow> e = invalid_cron_expression w"
  using parse_expression_cases [of w al tmo] by auto

lemma parse_expression_Inr:
  assumes "parse_expression w al tmo = Inr xs"
  shows "\<exists>R. finite R \<and> xs = sorted_list_of_set R
     \<and> (\<forall>p\<in>set (split_on CHR '','' w). \<exists>vs. parse_part p al tmo = Inr vs)
     \<and> R = {x. \<exists>p\<in>set (split_on CHR '','' w). \<exists>vs. parse_part p al tmo = Inr vs \<and> x \<in> set vs}"
proof -
  from assms parse_expression_cases [of w al tmo] obtain R
    where R: "parse_parts (split_on CHR '','' w) al tmo {} = Inr R"
      and xs: "xs = sorted_list_of_set R"
    by auto
  from parse_parts_Inr [OF R] xs show ?thesis by auto
qed

lemma parse_five:
  assumes "py_split e = [a, b, c, d, f]"
  shows "parse e =
     catch_ValueError
       (bind_res (parse_expression a (field_range 0) (field_aliases 0)) (\<lambda>mi.
        bind_res (parse_expression b (field_range 1) (field_aliases 1)) (\<lambda>ho.
        bind_res (parse_expression c (field_range 2) (field_aliases 2)) (\<lambda>dm.
        bind_res (parse_expression d (field_range 3) (field_aliases 3)) (\<lambda>mo.
        bind_res (parse_expression f (field_range 4) (field_aliases 4)) (\<lambda>dw.
          Inr \<lparr>minute = mi, hour = ho, day_of_month = dm, month = mo, day_of_week = dw\<rparr>))))))
       (invalid_cron_expression e)"
  using assms by (simp add: parse_def EXPECTED_FIELD_COUNT_def field_range_def field_aliases_def)

lemma length5E:
  assumes "length xs = 5"
  obtains a b c d f where "xs = [a, b, c, d, f]"
proof -
  from assms obtain a r1 where "xs = a # r1" "length r1 = 4" by (cases xs) auto
  moreover then obtain b r2 where "r1 = b # r2" "length r2 = 3" by (cases r1) auto
  moreover then obtain c r3 where "r2 = c # r3" "length r3 = 2" by (cases r2) auto
  moreover then obtain d r4 where "r3 = d # r4" "length r4 = 1" by (cases r3) auto
  moreover then obtain f where "r4 = [f]" by (cases r4) auto
  ultimately show ?thesis using that by simp
qed

lemma parse_Inl: "parse e = Inl err \<Longrightarrow> err = invalid_cron_expression e"
proof (cases "length (py_split e) = 5")
  case False
  assume "parse e = Inl err"
  with False show ?thesis by (simp add: parse_def EXPECTED_FIELD_COUNT_def)
next
  case True
  assume pe: "parse e = Inl err"
  from True obtain a b c d f where sp: "py_split e = [a, b, c, d, f]" by (rule length5E)
  show ?thesis
    using pe parse_expression_Inl
    unfolding parse_five [OF sp] catch_ValueError_def bind_res_def invalid_cron_expression_def
    by (fastforce split: sum.splits py_error.splits)
qed

lemma parse_wrong_count:
  "length (py_split e) \<noteq> 5 \<Longrightarrow> parse e = Inl (invalid_cron_expression e)"
  by (simp add: parse_def EXPECTED_FIELD_COUNT_def)

lemma less5_cases: "i < (5::nat) \<Longrightarrow> i = 0 \<or> i = 1 \<or> i = 2 \<or> i = 3 \<or> i = 4"
  by arith

lemma parse_Inr:
  assumes "parse e = Inr s"
  shows "length (py_split e) = 5
     \<and> (\<forall>i<5. parse_expression (py_split e ! i) (field_range i) (field_aliases i)
                 = Inr (schedule_field s i))"
proof -
  have len: "length (py_split e) = 5"
    using assms parse_wrong_count [of e] by auto
  then obtain a b c d f where sp: "py_split e = [a, b, c, d, f]" by (rule length5E)
  from assms have
    "parse_expression a (field_range 0) (field_aliases 0) = Inr (minute s)
     \<and> parse_expression b (field_range 1) (field_aliases 1) = Inr (hour s)
     \<and> parse_expression c (field_range 2) (field_aliases 2) = Inr (day_of_month s)
     \<and> parse_expression d (field_range 3) (field_aliases 3) = Inr (month s)
     \<and> parse_expression f (field_range 4) (field_aliases 4) = Inr (day_of_week s)"
    unfolding parse_five [OF sp] catch_ValueError_def bind_res_def
    by (auto split: sum.splits py_error.splits)
  then have "\<forall>i<5. parse_expression (py_split e ! i) (field_range i) (field_aliases i)
                 = Inr (schedule_field s i)"
    using sp by (auto simp: schedule_field_def dest!: less5_cases)
  with len show ?thesis by simp
qed

lemma parse_fails_field:
  assumes "length (py_split e) = 5" "i < 5"
    "parse_expression (py_split e ! i) (field_range i) (field_aliases i) = Inl err"
  shows "parse e = Inl (invalid_cron_expression e)"
proof (cases "parse e")
  case (Inl x)
  then show ?thesis using parse_Inl by blast
next
  case (Inr s)
  from parse_Inr [OF Inr] assms show ?thesis by auto
qed

lemma parse_fails_part:
  assumes "length (py_split e) = 5" "i < 5"
    "p \<in> set (split_on CHR '','' (py_split e ! i))"
    "\<And>vs. parse_part p (field_range i) (field_aliases i) \<noteq> Inr vs"
  shows "parse e = Inl (invalid_cron_expression e)"
proof (cases "parse_expression (py_split e ! i) (field_range i) (field_aliases i)")
  case (Inl err)
  with assms(1,2) show ?thesis by (rule parse_fails_field)
next
  case (Inr xs)
  from parse_expression_Inr [OF Inr] assms(3,4) show ?thesis by blast
qed

subsection \<open>The ranges and alias tables of the five fields\<close>

lemma py_str_small: "list_all (\<lambda>k. isdigit (py_str k)) [0..12]"
  by code_simp

lemma field_aliases_good:
  assumes "i < 5" "alias_map (field_aliases i) v = Some k"
  shows "isdigit (py_str k) \<and> CHR ''-'' \<notin> set v \<and> CHR ''/'' \<notin> set v"
proof -
  have k: "k \<in> set [0..12] \<and> CHR ''-'' \<notin> set v \<and> CHR ''/'' \<notin> set v"
    using assms
    by (auto simp: field_aliases_def alias_map_def MONTH_NAME_TO_INDEX_def DAY_NAME_TO_INDEX_def
        dest!: less5_cases split: if_splits)
  with py_str_small show ?thesis by (auto simp: list_all_iff)
qed

lemma field_range_all:
  "list_all (\<lambda>i. hd (field_range i) < last (field_range i) + 1 \<and> 1 < length (field_range i))
     [0, 1, 2, 3, 4]"
  by code_simp

lemma field_range_facts:
  "i < 5 \<Longrightarrow> hd (field_range i) < last (field_range i) + 1 \<and> 1 < length (field_range i)"
  using field_range_all by (auto dest!: less5_cases)

lemma range_list_empty_iff:
  assumes "0 < st"
  shows "range_list a b st = [] \<longleftrightarrow> b \<le> a"
proof (cases "a < b")
  case True
  then have "0 \<le> (b - a - 1) div st"
    using assms by (simp add: pos_imp_zdiv_nonneg_iff)
  then have "0 < nat ((b - a - 1) div st + 1)" by simp
  with True assms show ?thesis by (simp add: range_list_def)
next
  case False
  with assms show ?thesis by (simp add: range_list_def)
qed

lemma resolve_alias_None: "m v = None \<Longrightarrow> resolve_alias m v = v"
  by (simp add: resolve_alias_def)

lemma resolve_alias_Some: "m v = Some k \<Longrightarrow> resolve_alias m v = py_str k"
  by (simp add: resolve_alias_def)

lemma part_empty_iff:
  assumes i: "i < 5" and ok: "parse_part p (field_range i) (field_aliases i) = Inr vs"
  shows "vs = [] \<longleftrightarrow> reversed_range (alias_map (field_aliases i)) p"
proof -
  let ?m = "alias_map (field_aliases i)"
  let ?al = "field_range i"
  from parse_part_Inr_cases [OF ok] obtain v0 st where
    ep: "expr_to_parts p = Inr (v0, st)" and pos: "0 < st"
    and cases: "(isdigit (resolve_alias ?m v0) \<and> st = 1
          \<and> (\<exists>n. py_int (resolve_alias ?m v0) = Some n \<and> n \<in> set ?al \<and> vs = [n]))
      \<or> (\<not> isdigit (resolve_alias ?m v0) \<and> resolve_alias ?m v0 = ''*''
          \<and> vs = range_list (hd ?al) (last ?al + 1) st)
      \<or> (\<not> isdigit (resolve_alias ?m v0) \<and> resolve_alias ?m v0 \<noteq> ''*''
          \<and> (\<exists>a b x y. split_on CHR ''-'' (resolve_alias ?m v0) = [a, b]
             \<and> py_int (resolve_alias ?m a) = Some x \<and> py_int (resolve_alias ?m b) = Some y
             \<and> x \<in> set ?al \<and> y \<in> set ?al \<and> vs = range_list x (y + 1) st))"
    unfolding Let_def by blast
  have rr: "reversed_range ?m p =
      (case split_on CHR ''-'' v0 of
         [a, b] \<Rightarrow> (case (py_int (resolve_alias ?m a), py_int (resolve_alias ?m b)) of
                      (Some x, Some y) \<Rightarrow> y < x | _ \<Rightarrow> False)
       | _ \<Rightarrow> False)"
    by (simp add: reversed_range_def ep)
  have alias_digit: "isdigit (resolve_alias ?m v0) \<and> CHR ''-'' \<notin> set v0" if "?m v0 = Some k" for k
    using field_aliases_good [OF i that] that by (simp add: resolve_alias_Some)
  from cases show ?thesis
  proof (elim disjE conjE exE)
    fix n
    assume d: "isdigit (resolve_alias ?m v0)" and vs: "vs = [n]"
    have "CHR ''-'' \<notin> set v0"
    proof (cases "?m v0")
      case None
      with d have "isdigit v0" by (simp add: resolve_alias_None)
      then show ?thesis using isdigit_no_chr by blast
    next
      case (Some k)
      then show ?thesis using alias_digit by blast
    qed
    then have "split_on CHR ''-'' v0 = [v0]" by (rule split_on_no_sep)
    with vs show ?thesis by (simp add: rr)
  next
    assume nd: "\<not> isdigit (resolve_alias ?m v0)" and star: "resolve_alias ?m v0 = ''*''"
      and vs: "vs = range_list (hd ?al) (last ?al + 1) st"
    have none: "?m v0 = None" using nd alias_digit by (cases "?m v0") auto
    with star have "v0 = ''*''" by (simp add: resolve_alias_None)
    then have "\<not> reversed_range ?m p" by (simp add: rr)
    moreover have "vs \<noteq> []"
      using field_range_facts [OF i] pos vs by (simp add: range_list_empty_iff)
    ultimately show ?thesis by simp
  next
    fix a b x y
    assume nd: "\<not> isdigit (resolve_alias ?m v0)"
      and sp: "split_on CHR ''-'' (resolve_alias ?m v0) = [a, b]"
      and x: "py_int (resolve_alias ?m a) = Some x" and y: "py_int (resolve_alias ?m b) = Some y"
      and vs: "vs = range_list x (y + 1) st"
    have none: "?m v0 = None" using nd alias_digit by (cases "?m v0") auto
    with sp have "split_on CHR ''-'' v0 = [a, b]" by (simp add: resolve_alias_None)
    then have "reversed_range ?m p \<longleftrightarrow> y < x" using x y by (simp add: rr)
    moreover have "vs = [] \<longleftrightarrow> y < x"
      using pos vs by (auto simp: range_list_empty_iff)
    ultimately show ?thesis by simp
  qed
qed

lemma field_empty_iff:
  assumes i: "i < 5"
    and ok: "parse_expression w (field_range i) (field_aliases i) = Inr xs"
  shows "xs = [] \<longleftrightarrow>
     list_all (reversed_range (alias_map (field_aliases i))) (split_on CHR '','' w)"
proof -
  let ?parts = "split_on CHR '','' w"
  from parse_expression_Inr [OF ok] obtain R where
    fin: "finite R" and xs: "xs = sorted_list_of_set R"
    and all: "\<forall>p\<in>set ?parts. \<exists>vs. parse_part p (field_range i) (field_aliases i) = Inr vs"
    and R: "R = {x. \<exists>p\<in>set ?parts. \<exists>vs.
                  parse_part p (field_range i) (field_aliases i) = Inr vs \<and> x \<in> set vs}"
    by blast
  have "xs = [] \<longleftrightarrow> R = {}" using fin xs by (simp add: sorted_list_of_set_eq_Nil_iff)
  also have "\<dots> \<longleftrightarrow> (\<forall>p\<in>set ?parts. \<forall>vs.
        parse_part p (field_range i) (field_aliases i) = Inr vs \<longrightarrow> vs = [])"
  proof
    assume e: "R = {}"
    show "\<forall>p\<in>set ?parts. \<forall>vs.
        parse_part p (field_range i) (field_aliases i) = Inr vs \<longrightarrow> vs = []"
    proof (intro ballI allI impI)
      fix p vs
      assume p: "p \<in> set ?parts"
        and vs: "parse_part p (field_range i) (field_aliases i) = Inr vs"
      show "vs = []"
      proof (rule ccontr)
        assume "vs \<noteq> []"
        then have "hd vs \<in> set vs" by simp
        with p vs have "hd vs \<in> R" unfolding R by blast
        with e show False by simp
      qed
    qed
  next
    assume "\<forall>p\<in>set ?parts. \<forall>vs.
        parse_part p (field_range i) (field_aliases i) = Inr vs \<longrightarrow> vs = []"
    then show "R = {}" unfolding R by fastforce
  qed
  also have "\<dots> \<longleftrightarrow> (\<forall>p\<in>set ?parts. reversed_range (alias_map (field_aliases i)) p)"
    using all part_empty_iff [OF i] by metis
  finally show ?thesis by (simp add: list_all_iff)
qed




subsection \<open>Alias names in another case\<close>

lemma ascii_upper_alpha:
  assumes "ascii_upper c \<in> set ''ABCDEFGHIJKLMNOPQRSTUVWXYZ''"
  shows "alpha_chr c"
proof (cases "map_of (zip ''abcdefghijklmnopqrstuvwxyz'' ''ABCDEFGHIJKLMNOPQRSTUVWXYZ'') c")
  case None
  then have "ascii_upper c = c" by (simp add: ascii_upper_def)
  with assms show ?thesis unfolding alpha_chr_def by auto
next
  case (Some u)
  then have "(c, u) \<in> set (zip ''abcdefghijklmnopqrstuvwxyz'' ''ABCDEFGHIJKLMNOPQRSTUVWXYZ'')"
    by (rule map_of_SomeD)
  then have "c \<in> set ''abcdefghijklmnopqrstuvwxyz''" by (rule set_zip_leftD)
  then show ?thesis unfolding alpha_chr_def by auto
qed

lemma alpha_chr_plain:
  "alpha_chr c \<Longrightarrow> \<not> decimal_chr c \<and> \<not> isdigit_chr c \<and> \<not> isspace_chr c \<and> c \<noteq> CHR ''_''
     \<and> c \<noteq> CHR ''+'' \<and> c \<noteq> CHR ''-'' \<and> c \<noteq> CHR ''*'' \<and> c \<noteq> CHR ''/''"
  by (auto simp: alpha_chr_def decimal_chr_def isdigit_chr_def isspace_chr_def)

lemma field_alias_keys:
  assumes "i < 5" "alias_map (field_aliases i) k = Some v"
  shows "k \<noteq> [] \<and> set k \<subseteq> set ''ABCDEFGHIJKLMNOPQRSTUVWXYZ''"
  using assms
  by (auto simp: field_aliases_def alias_map_def MONTH_NAME_TO_INDEX_def DAY_NAME_TO_INDEX_def
      dest!: less5_cases split: if_splits)

lemma miscased_alpha:
  assumes i: "i < 5" and mc: "miscased (alias_map (field_aliases i)) x"
  shows "x \<noteq> [] \<and> (\<forall>c\<in>set x. alpha_chr c)"
proof -
  from mc obtain v where v: "alias_map (field_aliases i) (map ascii_upper x) = Some v"
    by (auto simp: miscased_def)
  from field_alias_keys [OF i v] have ne: "map ascii_upper x \<noteq> []"
    and up: "set (map ascii_upper x) \<subseteq> set ''ABCDEFGHIJKLMNOPQRSTUVWXYZ''"
    by blast+
  have "alpha_chr c" if "c \<in> set x" for c
  proof -
    from that have "ascii_upper c \<in> set (map ascii_upper x)" by simp
    with up have "ascii_upper c \<in> set ''ABCDEFGHIJKLMNOPQRSTUVWXYZ''" by blast
    then show ?thesis by (rule ascii_upper_alpha)
  qed
  with ne show ?thesis by simp
qed

lemma py_int_alpha: "c \<in> set s \<Longrightarrow> alpha_chr c \<Longrightarrow> py_int s = None"
  using py_int_chars [of s _ c] alpha_chr_plain [of c] by (cases "py_int s") auto

lemma miscased_part_fails:
  assumes i: "i < 5" and u: "uses_miscased_alias (alias_map (field_aliases i)) p"
  shows "parse_part p (field_range i) (field_aliases i) \<noteq> Inr vs"
proof
  let ?m = "alias_map (field_aliases i)"
  let ?al = "field_range i"
  assume ok: "parse_part p ?al (field_aliases i) = Inr vs"
  from parse_part_Inr_cases [OF ok] obtain v0 st where
    ep: "expr_to_parts p = Inr (v0, st)"
    and cases: "(isdigit (resolve_alias ?m v0))
      \<or> (resolve_alias ?m v0 = ''*'')
      \<or> (\<exists>a b x y. split_on CHR ''-'' (resolve_alias ?m v0) = [a, b]
             \<and> py_int (resolve_alias ?m a) = Some x \<and> py_int (resolve_alias ?m b) = Some y)"
    unfolding Let_def by blast
  have v0: "v0 = takeWhile (\<lambda>c. c \<noteq> CHR ''/'') p" using ep by (rule expr_to_parts_base)
  from u obtain x where xin: "x \<in> set (split_on CHR ''-'' v0)" and mc: "miscased ?m x"
    by (auto simp: uses_miscased_alias_def list_ex_iff v0)
  from miscased_alpha [OF i mc] have xne: "x \<noteq> []" and xal: "\<forall>c\<in>set x. alpha_chr c" by blast+
  define c where "c = hd x"
  have cx: "c \<in> set x" and ca: "alpha_chr c" using xne xal by (simp_all add: c_def)
  have cv: "c \<in> set v0" using split_on_piece_chars [OF xin] cx by blast
  have xnone: "?m x = None" using mc by (simp add: miscased_def)
  have none: "?m v0 = None"
  proof (cases "?m v0")
    case None
    then show ?thesis .
  next
    case (Some k)
    from field_aliases_good [OF i Some] have "CHR ''-'' \<notin> set v0" by blast
    then have "split_on CHR ''-'' v0 = [v0]" by (rule split_on_no_sep)
    with xin have "x = v0" by simp
    with xnone Some show ?thesis by simp
  qed
  then have rv: "resolve_alias ?m v0 = v0" by (rule resolve_alias_None)
  from cases show False unfolding rv
  proof (elim disjE exE conjE)
    assume "isdigit v0"
    then have "isdigit_chr c" using cv by (rule isdigit_chars)
    with ca show False using alpha_chr_plain by blast
  next
    assume "v0 = ''*''"
    with cv have "c = CHR ''*''" by simp
    with ca show False using alpha_chr_plain by blast
  next
    fix a b xa ya
    assume sp: "split_on CHR ''-'' v0 = [a, b]"
      and a: "py_int (resolve_alias ?m a) = Some xa"
      and b: "py_int (resolve_alias ?m b) = Some ya"
    from xin sp have "x = a \<or> x = b" by simp
    then have "py_int (resolve_alias ?m x) \<noteq> None" using a b by auto
    moreover have "resolve_alias ?m x = x" using xnone by (rule resolve_alias_None)
    ultimately show False using py_int_alpha [OF cx ca] by simp
  qed
qed

section \<open>Properties of the source\<close>

subsection \<open>Non-empty fields\<close>

text \<open>
  C1, as stated: every field of the schedule returned by a successful parse is non-empty.
  This fails: a range whose start is above its end passes both membership tests of
  \<^verbatim>\<open>_parse_part\<close> and \<^verbatim>\<open>range(start, end + 1, step)\<close> is empty, so
  \<^verbatim>\<open>20-10 * * * *\<close> parses to a schedule whose minute field is the empty tuple.
\<close>

theorem reversed_range_empty_field:
  "parse ''20-10 * * * *'' =
     Inr \<lparr>minute = [], hour = FIELD_RANGES hours, day_of_month = FIELD_RANGES day_of_month_key,
          month = FIELD_RANGES month_key, day_of_week = FIELD_RANGES day_of_week_key\<rparr>"
  by code_simp

text \<open>
  C1, amended: for every expression on which parse succeeds, a field of the returned
  schedule is empty exactly when every comma-separated part of that field is a reversed
  range (\<^verbatim>\<open>start-end\<close>, with or without a step, whose start is above its end); so a field
  with one part of any other kind is non-empty.
\<close>

theorem empty_field_iff_reversed:
  assumes "parse e = Inr s"
  shows "(minute s = [] \<longleftrightarrow> field_all_reversed e 0)
     \<and> (hour s = [] \<longleftrightarrow> field_all_reversed e 1)
     \<and> (day_of_month s = [] \<longleftrightarrow> field_all_reversed e 2)
     \<and> (month s = [] \<longleftrightarrow> field_all_reversed e 3)
     \<and> (day_of_week s = [] \<longleftrightarrow> field_all_reversed e 4)"
proof -
  have f: "schedule_field s i = [] \<longleftrightarrow> field_all_reversed e i" if "i < 5" for i
  proof -
    from parse_Inr [OF assms] that
    have "parse_expression (py_split e ! i) (field_range i) (field_aliases i)
            = Inr (schedule_field s i)" by simp
    from field_empty_iff [OF that this] show ?thesis by (simp add: field_all_reversed_def)
  qed
  from f [of 0] f [of 1] f [of 2] f [of 3] f [of 4]
  show ?thesis by (simp add: schedule_field_def)
qed

theorem empty_field_iff_reversed_witness:
  "parse ''20-10,30-5 5 * MAR-JAN *'' =
     Inr \<lparr>minute = [], hour = [5], day_of_month = [1..31], month = [], day_of_week = [0..6]\<rparr>
   \<and> field_all_reversed ''20-10,30-5 5 * MAR-JAN *'' 0
   \<and> \<not> field_all_reversed ''20-10,30-5 5 * MAR-JAN *'' 1
   \<and> field_all_reversed ''20-10,30-5 5 * MAR-JAN *'' 3"
proof -
  have p: "parse ''20-10,30-5 5 * MAR-JAN *'' =
     Inr \<lparr>minute = [], hour = [5], day_of_month = [1..31], month = [], day_of_week = [0..6]\<rparr>"
    by code_simp
  note t = empty_field_iff_reversed [OF p]
  have a: "field_all_reversed ''20-10,30-5 5 * MAR-JAN *'' 0"
    using t [THEN conjunct1] by (simp only: CronSchedule.select_convs simp_thms)
  have b: "\<not> field_all_reversed ''20-10,30-5 5 * MAR-JAN *'' 1"
    using t [THEN conjunct2, THEN conjunct1]
    by (simp only: CronSchedule.select_convs list.simps simp_thms)
  have c: "field_all_reversed ''20-10,30-5 5 * MAR-JAN *'' 3"
    using t [THEN conjunct2, THEN conjunct2, THEN conjunct2, THEN conjunct1]
    by (simp only: CronSchedule.select_convs simp_thms)
  from p a b c show ?thesis by (intro conjI)
qed

subsection \<open>The wildcard\<close>

text \<open>
  C2. For each of the five fields, expanding the token \<^verbatim>\<open>*\<close> without a step, with the
  range and the alias table \<^verbatim>\<open>parse\<close> passes for that field, yields exactly the full
  allowed range of the field: 0 to 59 for the minute, 0 to 23 for the hour, 1 to 31 for the
  day of the month, 1 to 12 for the month and 0 to 6 for the day of the week. Each of these
  is strictly ascending, so it is sorted and has no duplicates.
\<close>

theorem star_full_range:
  "parse_expression ''*'' (FIELD_RANGES minutes) None = Inr [0..59]
   \<and> parse_expression ''*'' (FIELD_RANGES hours) None = Inr [0..23]
   \<and> parse_expression ''*'' (FIELD_RANGES day_of_month_key) None = Inr [1..31]
   \<and> parse_expression ''*'' (FIELD_RANGES month_key) (Some MONTH_NAME_TO_INDEX) = Inr [1..12]
   \<and> parse_expression ''*'' (FIELD_RANGES day_of_week_key) (Some DAY_NAME_TO_INDEX) = Inr [0..6]
   \<and> sorted_wrt (<) [0..59::int] \<and> sorted_wrt (<) [0..23::int] \<and> sorted_wrt (<) [1..31::int]
   \<and> sorted_wrt (<) [1..12::int] \<and> sorted_wrt (<) [0..6::int]"
  by code_simp

subsection \<open>Rejected steps\<close>

text \<open>
  C3. Let an expression have five fields, and let some comma-separated part of one of them
  be \<^verbatim>\<open>base/s\<close> where \<open>s\<close> is a digit string read as the integer \<open>n\<close>. If \<open>n\<close> is zero, or
  \<open>n\<close> is at least the length of the allowed range of that field, then parse fails with the
  error for the whole expression. \<^verbatim>\<open>*/0 * * * *\<close> and \<^verbatim>\<open>*/65 * * * *\<close> (65 is at least
  60) are instances.
\<close>

theorem step_rejection:
  assumes "length (py_split e) = 5" and "i < 5"
    and "p \<in> set (split_on CHR '','' (py_split e ! i))"
    and "p = base @ ''/'' @ s" and "isdigit s" and "py_int s = Some n"
    and "n = 0 \<or> int (length (field_range i)) \<le> n"
  shows "parse e = Inl (invalid_cron_expression e)"
proof (rule parse_fails_part [OF assms(1,2,3)])
  fix vs
  show "parse_part p (field_range i) (field_aliases i) \<noteq> Inr vs"
  proof
    assume "parse_part p (field_range i) (field_aliases i) = Inr vs"
    from parse_part_Inr_cases [OF this] obtain v0 st where
      ep: "expr_to_parts p = Inr (v0, st)" and pos: "0 < st"
      and lt: "st < int (length (field_range i))"
      by blast
    from ep assms(4) have "py_int s = Some st" using step_of_part by blast
    with assms(6) have "st = n" by simp
    with pos lt assms(7) show False by auto
  qed
qed

theorem step_rejection_witness:
  "parse ''*/65 * * * *'' = Inl (invalid_cron_expression ''*/65 * * * *'')
   \<and> parse ''*/0 * * * *'' = Inl (invalid_cron_expression ''*/0 * * * *'')
   \<and> int (length (field_range 0)) = 60"
proof -
  have a: "parse ''*/65 * * * *'' = Inl (invalid_cron_expression ''*/65 * * * *'')"
  proof (rule step_rejection [where i = 0 and p = "''*/65''" and base = "''*''"
        and s = "''65''" and n = 65])
    show "length (py_split ''*/65 * * * *'') = 5" by code_simp
    show "''*/65'' \<in> set (split_on CHR '','' (py_split ''*/65 * * * *'' ! 0))" by code_simp
    show "isdigit ''65''" by code_simp
    show "py_int ''65'' = Some 65" by code_simp
    show "(65::int) = 0 \<or> int (length (field_range 0)) \<le> 65" by code_simp
  qed simp_all
  have b: "parse ''*/0 * * * *'' = Inl (invalid_cron_expression ''*/0 * * * *'')"
  proof (rule step_rejection [where i = 0 and p = "''*/0''" and base = "''*''"
        and s = "''0''" and n = 0])
    show "length (py_split ''*/0 * * * *'') = 5" by code_simp
    show "''*/0'' \<in> set (split_on CHR '','' (py_split ''*/0 * * * *'' ! 0))" by code_simp
    show "isdigit ''0''" by code_simp
    show "py_int ''0'' = Some 0" by code_simp
  qed simp_all
  have c: "int (length (field_range 0)) = 60" by code_simp
  from a b c show ?thesis by (intro conjI)
qed

subsection \<open>The error of parse\<close>

text \<open>
  C4. An expression whose number of white-space separated tokens is not five fails, and
  every failure of parse, whatever its cause, is the \<^verbatim>\<open>ValueError\<close> whose message is the
  \<^verbatim>\<open>repr\<close> of the whole expression followed by \<^verbatim>\<open> is not valid cron expression.\<close>
\<close>

theorem invalid_expression_message:
  "(length (py_split e) \<noteq> 5 \<longrightarrow>
      parse e = Inl (ValueError (py_repr e @ '' is not valid cron expression.'')))
   \<and> (\<forall>err. parse e = Inl err \<longrightarrow>
        err = ValueError (py_repr e @ '' is not valid cron expression.''))"
proof (intro conjI impI allI)
  assume "length (py_split e) \<noteq> 5"
  then show "parse e = Inl (ValueError (py_repr e @ '' is not valid cron expression.''))"
    unfolding invalid_cron_expression_def [symmetric] by (rule parse_wrong_count)
next
  fix err
  assume "parse e = Inl err"
  then show "err = ValueError (py_repr e @ '' is not valid cron expression.'')"
    unfolding invalid_cron_expression_def [symmetric] by (rule parse_Inl)
qed

theorem invalid_expression_message_witness:
  "length (py_split ''0 0'') \<noteq> 5
   \<and> parse ''0 0'' = Inl (ValueError (py_repr ''0 0'' @ '' is not valid cron expression.''))
   \<and> py_repr ''0 0'' = [CHR 0x27] @ ''0 0'' @ [CHR 0x27]
   \<and> length (py_split ''0 24 * * *'') = 5
   \<and> parse ''0 24 * * *''
       = Inl (ValueError (py_repr ''0 24 * * *'' @ '' is not valid cron expression.''))
   \<and> py_repr ''0 24 * * *'' = [CHR 0x27] @ ''0 24 * * *'' @ [CHR 0x27]"
proof -
  have l1: "length (py_split ''0 0'') \<noteq> 5" by code_simp
  have l2: "length (py_split ''0 24 * * *'') = 5" by code_simp
  have r1: "py_repr ''0 0'' = [CHR 0x27] @ ''0 0'' @ [CHR 0x27]" by code_simp
  have r2: "py_repr ''0 24 * * *'' = [CHR 0x27] @ ''0 24 * * *'' @ [CHR 0x27]" by code_simp
  have f2: "parse ''0 24 * * *'' = Inl (invalid_cron_expression ''0 24 * * *'')" by code_simp
  have a: "parse ''0 0'' = Inl (ValueError (py_repr ''0 0'' @ '' is not valid cron expression.''))"
    by (rule invalid_expression_message [of "''0 0''", THEN conjunct1, rule_format, OF l1])
  have eq: "invalid_cron_expression ''0 24 * * *''
      = ValueError (py_repr ''0 24 * * *'' @ '' is not valid cron expression.'')"
    by (rule invalid_expression_message [of "''0 24 * * *''", THEN conjunct2, rule_format,
          OF f2])
  have b: "parse ''0 24 * * *''
      = Inl (ValueError (py_repr ''0 24 * * *'' @ '' is not valid cron expression.''))"
    using f2 unfolding eq .
  from l1 a r1 l2 b r2 show ?thesis by (intro conjI)
qed

text \<open>
  C9. For every input string, parse either returns a schedule or raises that one
  \<^verbatim>\<open>ValueError\<close>: no \<^verbatim>\<open>IndexError\<close> or other exception leaves it, since every failure
  inside the expansion of a field is a \<^verbatim>\<open>ValueError\<close> and both \<^verbatim>\<open>try\<close> blocks catch
  that class.
\<close>

theorem parse_only_invalid_expression:
  "(\<exists>s. parse e = Inr s)
   \<or> parse e = Inl (ValueError (py_repr e @ '' is not valid cron expression.''))"
proof (cases "parse e")
  case (Inl err)
  then have "err = invalid_cron_expression e" by (rule parse_Inl)
  with Inl show ?thesis unfolding invalid_cron_expression_def by blast
next
  case (Inr s)
  then show ?thesis by blast
qed

subsection \<open>Sorted fields\<close>

text \<open>
  C5. For every expression on which parse succeeds, each of the five fields of the schedule
  is strictly ascending, hence without repeated values, also when comma-separated parts
  overlap.
\<close>

theorem parse_fields_strictly_ascending:
  assumes "parse e = Inr s"
  shows "sorted_wrt (<) (minute s) \<and> sorted_wrt (<) (hour s) \<and> sorted_wrt (<) (day_of_month s)
     \<and> sorted_wrt (<) (month s) \<and> sorted_wrt (<) (day_of_week s)
     \<and> distinct (minute s) \<and> distinct (hour s) \<and> distinct (day_of_month s)
     \<and> distinct (month s) \<and> distinct (day_of_week s)"
proof -
  have f: "sorted_wrt (<) (schedule_field s i)" if "i < 5" for i
  proof -
    from parse_Inr [OF assms] that
    have "parse_expression (py_split e ! i) (field_range i) (field_aliases i)
            = Inr (schedule_field s i)" by simp
    from parse_expression_Inr [OF this] show ?thesis by auto
  qed
  from f [of 0] f [of 1] f [of 2] f [of 3] f [of 4]
  have "sorted_wrt (<) (minute s) \<and> sorted_wrt (<) (hour s) \<and> sorted_wrt (<) (day_of_month s)
     \<and> sorted_wrt (<) (month s) \<and> sorted_wrt (<) (day_of_week s)"
    by (simp add: schedule_field_def)
  then show ?thesis by (simp add: strict_sorted_iff)
qed

theorem parse_fields_strictly_ascending_witness:
  "parse ''1-5,3-8,4 * * * *'' =
     Inr \<lparr>minute = [1, 2, 3, 4, 5, 6, 7, 8], hour = [0..23], day_of_month = [1..31],
          month = [1..12], day_of_week = [0..6]\<rparr>
   \<and> sorted_wrt (<) [1, 2, 3, 4, 5, 6, 7, 8 :: int] \<and> distinct [1, 2, 3, 4, 5, 6, 7, 8 :: int]"
proof -
  have p: "parse ''1-5,3-8,4 * * * *'' =
     Inr \<lparr>minute = [1, 2, 3, 4, 5, 6, 7, 8], hour = [0..23], day_of_month = [1..31],
          month = [1..12], day_of_week = [0..6]\<rparr>" by code_simp
  note t = parse_fields_strictly_ascending [OF p]
  have s: "sorted_wrt (<) [1, 2, 3, 4, 5, 6, 7, 8 :: int]"
    using t [THEN conjunct1] by (simp only: CronSchedule.select_convs)
  have d: "distinct [1, 2, 3, 4, 5, 6, 7, 8 :: int]"
    using t [THEN conjunct2, THEN conjunct2, THEN conjunct2, THEN conjunct2, THEN conjunct2,
        THEN conjunct1]
    by (simp only: CronSchedule.select_convs)
  from p s d show ?thesis by (intro conjI)
qed

subsection \<open>Literals with a step\<close>



subsection \<open>Aliases are case-sensitive\<close>

text \<open>
  C10. Only the exact upper-case keys of the alias tables are resolved: an expression of
  five fields whose month or day-of-week field has a part using a lower-case or mixed-case
  spelling of an alias, alone or as an end of a range, with or without a step, fails with
  the error for the whole expression.
\<close>

theorem alias_case_sensitive:
  assumes "length (py_split e) = 5" and "i = 3 \<or> i = 4"
    and "p \<in> set (split_on CHR '','' (py_split e ! i))"
    and "uses_miscased_alias (alias_map (field_aliases i)) p"
  shows "parse e = Inl (invalid_cron_expression e)"
proof -
  have i: "i < 5" using assms(2) by auto
  show ?thesis
    by (rule parse_fails_part [OF assms(1) i assms(3)]) (rule miscased_part_fails [OF i assms(4)])
qed

theorem alias_case_sensitive_witness:
  "parse ''0 0 1 jan *'' = Inl (invalid_cron_expression ''0 0 1 jan *'')
   \<and> parse ''0 0 1 * MON-Fri/2,0'' = Inl (invalid_cron_expression ''0 0 1 * MON-Fri/2,0'')
   \<and> uses_miscased_alias MONTH_NAME_TO_INDEX ''jan''
   \<and> uses_miscased_alias DAY_NAME_TO_INDEX ''MON-Fri/2''"
proof -
  have m3: "alias_map (field_aliases 3) = MONTH_NAME_TO_INDEX"
    by (simp add: alias_map_def field_aliases_def)
  have m4: "alias_map (field_aliases 4) = DAY_NAME_TO_INDEX"
    by (simp add: alias_map_def field_aliases_def)
  have u1: "uses_miscased_alias MONTH_NAME_TO_INDEX ''jan''" by code_simp
  have u2: "uses_miscased_alias DAY_NAME_TO_INDEX ''MON-Fri/2''" by code_simp
  have a: "parse ''0 0 1 jan *'' = Inl (invalid_cron_expression ''0 0 1 jan *'')"
  proof (rule alias_case_sensitive [where i = 3 and p = "''jan''"])
    show "length (py_split ''0 0 1 jan *'') = 5" by code_simp
    show "''jan'' \<in> set (split_on CHR '','' (py_split ''0 0 1 jan *'' ! 3))" by code_simp
    show "uses_miscased_alias (alias_map (field_aliases 3)) ''jan''" unfolding m3 by (rule u1)
  qed simp
  have b: "parse ''0 0 1 * MON-Fri/2,0'' = Inl (invalid_cron_expression ''0 0 1 * MON-Fri/2,0'')"
  proof (rule alias_case_sensitive [where i = 4 and p = "''MON-Fri/2''"])
    show "length (py_split ''0 0 1 * MON-Fri/2,0'') = 5" by code_simp
    show "''MON-Fri/2'' \<in> set (split_on CHR '','' (py_split ''0 0 1 * MON-Fri/2,0'' ! 4))"
      by code_simp
    show "uses_miscased_alias (alias_map (field_aliases 4)) ''MON-Fri/2''"
      unfolding m4 by (rule u2)
  qed simp
  from a b u1 u2 show ?thesis by (intro conjI)
qed

subsection \<open>Explanations\<close>

text \<open>
  C7. \<^verbatim>\<open>explain\<close> applied to the expression \<^verbatim>\<open>15-30 10-12 * * 5\<close> returns exactly
  the sentence \<^verbatim>\<open>Every minute between 10:15 and 12:30 on Friday.\<close>
\<close>

theorem explain_friday_block:
  "explain (Text ''15-30 10-12 * * 5'') = Inr ''Every minute between 10:15 and 12:30 on Friday.''"
  by code_simp

text \<open>
  C6. The claim is that a schedule whose hour field is the whole hour range and whose minute
  field has one value gets the time phrase \<^verbatim>\<open>At ... every hour\<close>. In the source the test
  \<^verbatim>\<open>_is_contiguous(minute)\<close> comes before the test \<^verbatim>\<open>len(minute) == 1\<close>, and a tuple
  of one element has no adjacent pair, so it is contiguous: for the minute 5 and every hour
  the time phrase is \<^verbatim>\<open>Every minute\<close>, and the expression \<^verbatim>\<open>5 * * * *\<close> is explained
  as \<^verbatim>\<open>Every minute.\<close>
\<close>

theorem single_minute_every_hour_code:
  "summarize_time [5] (FIELD_RANGES hours) = Inr ''Every minute''
   \<and> explain (Text ''5 * * * *'') = Inr ''Every minute.''"
  by code_simp

text \<open>The same holds for every single minute value: the branch for one minute is never
  reached from \<^verbatim>\<open>_summarize_time\<close>.\<close>

lemma single_minute_branch_dead:
  "summarize_time [m] (FIELD_RANGES hours) = Inr ''Every minute''"
  by (simp add: summarize_time_def is_full_range_def summarize_full_range_time_def
      uniform_step_def step_above_one_def is_contiguous_def pairwise_list_def)

end
